theory Spec2Isabelle
  imports Main
begin

section \<open>JavaScript values and records\<close>

text \<open>
  The records handled by \<^verbatim>\<open>schema.ts\<close> are plain JavaScript objects
  (\<^verbatim>\<open>Record<string, unknown>\<close>). A value is one of the JSON-like shapes below, plus
  \<^verbatim>\<open>undefined\<close>. Numbers are the integers (timestamps are integer milliseconds);
  fractions, \<^verbatim>\<open>NaN\<close>, bigints, dates and byte arrays are outside the model. An object
  is an association list in property insertion order; should a name be listed twice, the
  later entry is its value, as in an object literal. (JavaScript enumerates property names
  that are array indices before the others; no field name here is one.)
\<close>

datatype jsval =
    JUndefined
  | JNull
  | JBool bool
  | JNum int
  | JStr string
  | JArr "jsval list"
  | JObj "(string \<times> jsval) list"

type_synonym obj = "(string \<times> jsval) list"

text \<open>\<^verbatim>\<open>o[k]\<close>: the property, or \<^verbatim>\<open>undefined\<close> when the object has none of that name.\<close>

definition get_prop :: "obj \<Rightarrow> string \<Rightarrow> jsval" where
  "get_prop ob k = (case map_of (rev ob) k of None \<Rightarrow> JUndefined | Some v \<Rightarrow> v)"

text \<open>\<^verbatim>\<open>o[k] = v\<close>: overwrite in place, or append a new property.\<close>

definition set_prop :: "obj \<Rightarrow> string \<Rightarrow> jsval \<Rightarrow> obj" where
  "set_prop ob k v =
     (if k \<in> fst ` set ob
      then map (\<lambda>(k', v'). if k' = k then (k', v) else (k', v')) ob
      else ob @ [(k, v)])"

text \<open>The object literal \<^verbatim>\<open>{ id, ...data }\<close>: \<^verbatim>\<open>id\<close> first, then every own property of
  \<^verbatim>\<open>data\<close> assigned in order (so a property \<^verbatim>\<open>id\<close> of \<^verbatim>\<open>data\<close> overrides).\<close>

definition spread_onto :: "obj \<Rightarrow> obj \<Rightarrow> obj" where
  "spread_onto base data = foldl (\<lambda>acc (k, v). set_prop acc k v) base data"

definition is_object :: "jsval \<Rightarrow> bool" where
  "is_object v = (case v of JArr _ \<Rightarrow> True | JObj _ \<Rightarrow> True | _ \<Rightarrow> False)"

text \<open>\<^verbatim>\<open>a === b\<close> where \<^verbatim>\<open>a\<close> is read from a store entry and \<^verbatim>\<open>b\<close> comes from the
  caller: primitives compare by value, two objects or arrays are never the same reference.\<close>

definition strict_eq :: "jsval \<Rightarrow> jsval \<Rightarrow> bool" where
  "strict_eq a b = (\<not> is_object a \<and> a = b)"

subsection \<open>String conversion\<close>

fun digits :: "nat \<Rightarrow> string" where
  "digits n =
     (if n < 10 then [''0123456789'' ! n]
      else digits (n div 10) @ [''0123456789'' ! (n mod 10)])"

declare digits.simps [simp del]

definition int_toString :: "int \<Rightarrow> string" where
  "int_toString i = (if i < 0 then CHR ''-'' # digits (nat (- i)) else digits (nat i))"

fun join_with :: "string \<Rightarrow> string list \<Rightarrow> string" where
  "join_with sep [] = []"
| "join_with sep [x] = x"
| "join_with sep (x # y # ys) = x @ sep @ join_with sep (y # ys)"

text \<open>The text \<^verbatim>\<open>Array.prototype.join\<close> uses for an element: empty for
  \<^verbatim>\<open>undefined\<close> and \<^verbatim>\<open>null\<close>, the element's \<^verbatim>\<open>toString()\<close> otherwise.\<close>

fun js_text :: "jsval \<Rightarrow> string" where
  "js_text JUndefined = []"
| "js_text JNull = []"
| "js_text (JBool b) = (if b then ''true'' else ''false'')"
| "js_text (JNum i) = int_toString i"
| "js_text (JStr s) = s"
| "js_text (JArr xs) = join_with '','' (map js_text xs)"
| "js_text (JObj _) = ''[object Object]''"

datatype error = ShapeViolation | TypeError

text \<open>\<^verbatim>\<open>v.toString()\<close>: a \<^verbatim>\<open>TypeError\<close> on \<^verbatim>\<open>undefined\<close> and \<^verbatim>\<open>null\<close>.\<close>

definition js_toString :: "jsval \<Rightarrow> error + string" where
  "js_toString v =
     (if v = JUndefined \<or> v = JNull then Inl TypeError else Inr (js_text v))"

subsection \<open>deepMerge\<close>

text \<open>
  \<^verbatim>\<open>deepMerge(record, other)\<close> of the standard library's \<^verbatim>\<open>collections/deep_merge.ts\<close>
  with its default options: the result has the keys of \<^verbatim>\<open>record\<close> followed by the new
  keys of \<^verbatim>\<open>other\<close> (never \<^verbatim>\<open>__proto__\<close>); a key of \<^verbatim>\<open>other\<close> overrides, except
  that two plain objects are merged recursively and two arrays are concatenated.
\<close>

lemma size_member_less:
  "(k, b) \<in> set r \<Longrightarrow> size b < Suc (size_list (size_prod (\<lambda>_. 0) size) r)"
  by (induction r) auto

function mergeObjects :: "jsval \<Rightarrow> jsval \<Rightarrow> jsval" where
  "mergeObjects a (JObj r) =
     (case a of
        JObj l \<Rightarrow>
          JObj (filter (\<lambda>(k, _). k \<noteq> ''__proto__'')
                 (map (\<lambda>(k, x). case map_of (rev r) k of None \<Rightarrow> (k, x)
                                 | Some b \<Rightarrow> (k, mergeObjects x b)) l
                  @ filter (\<lambda>(k, _). k \<notin> fst ` set l) r))
      | _ \<Rightarrow> JObj r)"
| "mergeObjects a (JArr r) = (case a of JArr l \<Rightarrow> JArr (l @ r) | _ \<Rightarrow> JArr r)"
| "mergeObjects a JUndefined = JUndefined"
| "mergeObjects a JNull = JNull"
| "mergeObjects a (JBool b) = JBool b"
| "mergeObjects a (JNum n) = JNum n"
| "mergeObjects a (JStr s) = JStr s"
  by pat_completeness auto
termination
  by (relation "measure (\<lambda>(a, b). size b)") (auto dest!: map_of_SomeD dest: size_member_less)

definition deepMerge :: "obj \<Rightarrow> obj \<Rightarrow> obj" where
  "deepMerge record other =
     (case mergeObjects (JObj record) (JObj other) of JObj res \<Rightarrow> res | _ \<Rightarrow> [])"

section \<open>Shape validation\<close>

text \<open>
  The validation library is an external collaborator. A field validator is the set of
  values it accepts; a raw shape lists the declared fields. \<^verbatim>\<open>z.object(shape).parse(x)\<close>
  accepts \<^verbatim>\<open>x\<close> when every declared field's validator accepts \<^verbatim>\<open>x[field]\<close>
  (\<^verbatim>\<open>undefined\<close> for a missing property); properties that are not declared are ignored.
  A rejected value raises, which is the error \<open>ShapeViolation\<close>.
\<close>

type_synonym validator = "jsval \<Rightarrow> bool"
type_synonym shape = "(string \<times> validator) list"

definition parse :: "shape \<Rightarrow> obj \<Rightarrow> bool" where
  "parse sh x = list_all (\<lambda>(k, ok). ok (get_prop x k)) sh"

text \<open>\<^verbatim>\<open>.extend(more)\<close>: the fields of \<^verbatim>\<open>more\<close> replace or add to the declared ones.\<close>

definition extend_shape :: "shape \<Rightarrow> shape \<Rightarrow> shape" where
  "extend_shape sh more = filter (\<lambda>(k, _). k \<notin> fst ` set more) sh @ more"

text \<open>\<^verbatim>\<open>.partial()\<close>: every field also accepts \<^verbatim>\<open>undefined\<close>.\<close>

definition partial :: "shape \<Rightarrow> shape" where
  "partial sh = map (\<lambda>(k, ok). (k, \<lambda>v. v = JUndefined \<or> ok v)) sh"

section \<open>The key-value store\<close>

text \<open>
  The store (\<^verbatim>\<open>Deno.Kv\<close>) is an external collaborator, modelled at the interface the
  layer uses: the batched get, the prefix scan, and the atomic operation with its
  checks, mutations and commit. A key is a list of key parts; a JavaScript array is a key
  when each element is a string, a number or a boolean, and using anything else as a key
  part is a \<^verbatim>\<open>TypeError\<close>. The store holds one record and one versionstamp per key,
  lists entries in key order, and logs every call it receives. Each call is atomic.
  Limits on key size, value size and batch size are not modelled.
\<close>

datatype keypart = KStr string | KNum int | KBool bool

type_synonym key = "keypart list"

definition to_keypart :: "jsval \<Rightarrow> error + keypart" where
  "to_keypart v =
     (case v of JStr s \<Rightarrow> Inr (KStr s) | JNum n \<Rightarrow> Inr (KNum n) | JBool b \<Rightarrow> Inr (KBool b)
      | _ \<Rightarrow> Inl TypeError)"

fun to_key :: "jsval list \<Rightarrow> error + key" where
  "to_key [] = Inr []"
| "to_key (v # vs) =
     (case to_keypart v of
        Inl e \<Rightarrow> Inl e
      | Inr p \<Rightarrow> (case to_key vs of Inl e \<Rightarrow> Inl e | Inr ps \<Rightarrow> Inr (p # ps)))"

fun to_keys :: "jsval list list \<Rightarrow> error + key list" where
  "to_keys [] = Inr []"
| "to_keys (k # ks) =
     (case to_key k of
        Inl e \<Rightarrow> Inl e
      | Inr p \<Rightarrow> (case to_keys ks of Inl e \<Rightarrow> Inl e | Inr ps \<Rightarrow> Inr (p # ps)))"

text \<open>Key order: strings before numbers before booleans; strings by their bytes.\<close>

fun string_less :: "string \<Rightarrow> string \<Rightarrow> bool" where
  "string_less [] [] = False"
| "string_less [] (y # ys) = True"
| "string_less (x # xs) [] = False"
| "string_less (x # xs) (y # ys) =
     ((of_char x :: nat) < of_char y \<or> (x = y \<and> string_less xs ys))"

fun keypart_less :: "keypart \<Rightarrow> keypart \<Rightarrow> bool" where
  "keypart_less (KStr a) (KStr b) = string_less a b"
| "keypart_less (KStr _) _ = True"
| "keypart_less (KNum a) (KNum b) = (a < b)"
| "keypart_less (KNum _) (KBool _) = True"
| "keypart_less (KBool a) (KBool b) = (\<not> a \<and> b)"
| "keypart_less _ _ = False"

fun key_less :: "key \<Rightarrow> key \<Rightarrow> bool" where
  "key_less [] [] = False"
| "key_less [] (y # ys) = True"
| "key_less (x # xs) [] = False"
| "key_less (x # xs) (y # ys) = (keypart_less x y \<or> (x = y \<and> key_less xs ys))"

datatype kv_call =
    CallGetMany "jsval list list"
  | CallList "jsval list"
  | CallCommit

record kv =
  entries :: "(key \<times> obj \<times> nat) list"
  version :: nat
  calls :: "kv_call list"

definition kv_lookup :: "kv \<Rightarrow> key \<Rightarrow> (obj \<times> nat) option" where
  "kv_lookup db k = map_of (entries db) k"

fun kv_insert :: "key \<Rightarrow> obj \<times> nat \<Rightarrow> (key \<times> obj \<times> nat) list \<Rightarrow> (key \<times> obj \<times> nat) list" where
  "kv_insert k v [] = [(k, v)]"
| "kv_insert k v ((k', v') # es) =
     (if k = k' then (k, v) # es
      else if key_less k k' then (k, v) # (k', v') # es
      else (k', v') # kv_insert k v es)"

definition kv_remove :: "key \<Rightarrow> (key \<times> obj \<times> nat) list \<Rightarrow> (key \<times> obj \<times> nat) list" where
  "kv_remove k es = filter (\<lambda>(k', _). k' \<noteq> k) es"

text \<open>\<^verbatim>\<open>db.getMany(keys)\<close>: one result per key, in the order asked; \<open>None\<close> is the
  entry whose \<^verbatim>\<open>value\<close> is \<^verbatim>\<open>null\<close>.\<close>

definition getMany :: "kv \<Rightarrow> jsval list list \<Rightarrow> (error + obj option list) \<times> kv" where
  "getMany db ks =
     (let db' = db\<lparr>calls := calls db @ [CallGetMany ks]\<rparr>
      in case to_keys ks of
           Inl e \<Rightarrow> (Inl e, db')
         | Inr keys \<Rightarrow> (Inr (map (\<lambda>k. map_option fst (kv_lookup db k)) keys), db'))"

text \<open>\<^verbatim>\<open>db.list({ prefix })\<close>: the entries whose key extends the prefix, in key order.\<close>

definition has_prefix :: "key \<Rightarrow> key \<Rightarrow> bool" where
  "has_prefix p k = (length p < length k \<and> take (length p) k = p)"

definition list_prefix :: "kv \<Rightarrow> jsval list \<Rightarrow> (error + (key \<times> obj) list) \<times> kv" where
  "list_prefix db prefix =
     (let db' = db\<lparr>calls := calls db @ [CallList prefix]\<rparr>
      in case to_key prefix of
           Inl e \<Rightarrow> (Inl e, db')
         | Inr p \<Rightarrow>
             (Inr (map (\<lambda>(k, v, _). (k, v)) (filter (\<lambda>(k, _). has_prefix p k) (entries db))),
              db'))"

subsection \<open>Atomic operations\<close>

datatype operation = Set_op | Delete_op

text \<open>An atomic operation under construction: the keys given to \<^verbatim>\<open>check\<close> (each with
  \<^verbatim>\<open>versionstamp: null\<close>, the key must not exist) and the mutations, in staging order.\<close>

record atomic =
  checks :: "jsval list list"
  mutations :: "(operation \<times> jsval list \<times> obj) list"

datatype commit_result = CommitResult nat | CommitError

fun apply_mutation :: "nat \<Rightarrow> operation \<times> key \<times> obj \<Rightarrow> (key \<times> obj \<times> nat) list \<Rightarrow> (key \<times> obj \<times> nat) list" where
  "apply_mutation vs (Set_op, k, v) es = kv_insert k (v, vs) es"
| "apply_mutation vs (Delete_op, k, v) es = kv_remove k es"

fun to_mutations :: "(operation \<times> jsval list \<times> obj) list \<Rightarrow> error + (operation \<times> key \<times> obj) list" where
  "to_mutations [] = Inr []"
| "to_mutations ((oper, k, v) # ms) =
     (case to_key k of
        Inl e \<Rightarrow> Inl e
      | Inr p \<Rightarrow> (case to_mutations ms of Inl e \<Rightarrow> Inl e | Inr ps \<Rightarrow> Inr ((oper, p, v) # ps)))"

text \<open>\<^verbatim>\<open>commit()\<close>: all-or-nothing. Every check must find its key absent; then the
  mutations are applied in order under one fresh versionstamp.\<close>

definition commit :: "kv \<Rightarrow> atomic \<Rightarrow> (error + commit_result) \<times> kv" where
  "commit db t =
     (let db' = db\<lparr>calls := calls db @ [CallCommit]\<rparr>
      in case to_keys (checks t) of
           Inl e \<Rightarrow> (Inl e, db')
         | Inr cks \<Rightarrow>
            (case to_mutations (mutations t) of
               Inl e \<Rightarrow> (Inl e, db')
             | Inr ms \<Rightarrow>
                 if list_all (\<lambda>k. kv_lookup db k = None) cks
                 then (Inr (CommitResult (Suc (version db))),
                       db'\<lparr>entries := foldl (\<lambda>es m. apply_mutation (Suc (version db)) m es)
                                          (entries db) ms,
                           version := Suc (version db)\<rparr>)
                 else (Inr CommitError, db')))"

section \<open>The collection layer of \<^verbatim>\<open>schema.ts\<close>\<close>

definition getKeysWithIndexes :: "string \<Rightarrow> string \<Rightarrow> string" where
  "getKeysWithIndexes nm index = nm @ ''_by_'' @ index"

text \<open>\<^verbatim>\<open>updateTimestamps(data, isInsertion)\<close>, with the reading of the clock as the
  argument \<open>now\<close>. The source mutates \<^verbatim>\<open>data\<close>; the model returns the stamped record.\<close>

definition updateTimestamps :: "obj \<Rightarrow> bool \<Rightarrow> int \<Rightarrow> obj" where
  "updateTimestamps data isInsertion now =
     (let data1 = (if isInsertion then set_prop data ''createdAt'' (JNum now) else data)
      in set_prop data1 ''updatedAt'' (JNum now))"

text \<open>The key given to \<^verbatim>\<open>transaction.check\<close> for one index: the raw field value is the
  last key part.\<close>

definition check_key :: "string \<Rightarrow> obj \<Rightarrow> string \<Rightarrow> jsval list" where
  "check_key schemaName data index =
     [JStr schemaName, JStr (getKeysWithIndexes schemaName index), get_prop data index]"

text \<open>The key given to \<^verbatim>\<open>transaction[operation]\<close> for one index: the last key part is
  the field value's \<^verbatim>\<open>toString()\<close>, which raises on \<^verbatim>\<open>undefined\<close> and \<^verbatim>\<open>null\<close>.\<close>

definition mutation_key :: "string \<Rightarrow> obj \<Rightarrow> string \<Rightarrow> error + jsval list" where
  "mutation_key schemaName data index =
     (case js_toString (get_prop data index) of
        Inl e \<Rightarrow> Inl e
      | Inr s \<Rightarrow> Inr [JStr schemaName, JStr (getKeysWithIndexes schemaName index), JStr s])"

fun mutation_keys :: "string \<Rightarrow> obj \<Rightarrow> string list \<Rightarrow> error + jsval list list" where
  "mutation_keys schemaName data [] = Inr []"
| "mutation_keys schemaName data (index # rest) =
     (case mutation_key schemaName data index of
        Inl e \<Rightarrow> Inl e
      | Inr k \<Rightarrow>
          (case mutation_keys schemaName data rest of
             Inl e \<Rightarrow> Inl e
           | Inr ks \<Rightarrow> Inr (k # ks)))"

text \<open>The atomic operation \<^verbatim>\<open>performTransaction\<close> has staged when it reaches
  \<^verbatim>\<open>transaction.commit()\<close>: first loop the checks, second loop the mutations.\<close>

definition buildTransaction :: "string \<Rightarrow> string list \<Rightarrow> obj \<Rightarrow> operation \<Rightarrow> int \<Rightarrow> error + atomic" where
  "buildTransaction schemaName indexes data oper now =
     (let data' = updateTimestamps data (oper = Set_op) now
      in case mutation_keys schemaName data' indexes of
           Inl e \<Rightarrow> Inl e
         | Inr ks \<Rightarrow>
             Inr \<lparr>checks = map (check_key schemaName data') indexes,
                  mutations = map (\<lambda>k. (oper, k, data')) ks\<rparr>)"

definition performTransaction ::
  "kv \<Rightarrow> string \<Rightarrow> string list \<Rightarrow> obj \<Rightarrow> operation \<Rightarrow> int \<Rightarrow> (error + commit_result) \<times> kv" where
  "performTransaction db schemaName indexes data oper now =
     (case buildTransaction schemaName indexes data oper now of
        Inl e \<Rightarrow> (Inl e, db)
      | Inr t \<Rightarrow> commit db t)"

subsection \<open>The schema\<close>

text \<open>The arguments of \<^verbatim>\<open>Dongoose\<close> other than the store. \<open>uuid\<close> is the validation
  library's test of \<^verbatim>\<open>z.string().uuid()\<close> on a string, taken as a parameter.\<close>

record dongoose =
  schema :: shape
  name :: string
  primaryIndexes :: "string list option"
  secondaryIndexes :: "string list option"
  uuid :: "string \<Rightarrow> bool"

text \<open>\<^verbatim>\<open>[...new Set(xs)]\<close>: the first occurrence of each element, in order.\<close>

definition new_Set :: "string list \<Rightarrow> string list" where
  "new_Set xs = foldl (\<lambda>acc x. if x \<in> set acc then acc else acc @ [x]) [] xs"

definition schemaPrimaryIndexes :: "dongoose \<Rightarrow> string list" where
  "schemaPrimaryIndexes cfg =
     new_Set ((case primaryIndexes cfg of None \<Rightarrow> [] | Some xs \<Rightarrow> xs) @ [''id''])"

definition schemaSecondaryIndexes :: "dongoose \<Rightarrow> string list" where
  "schemaSecondaryIndexes cfg =
     new_Set ((case secondaryIndexes cfg of None \<Rightarrow> [] | Some xs \<Rightarrow> xs) @ [''id''])"

definition string_uuid :: "dongoose \<Rightarrow> validator" where
  "string_uuid cfg v = (case v of JStr s \<Rightarrow> uuid cfg s | _ \<Rightarrow> False)"

definition schemaValidationObject :: "dongoose \<Rightarrow> shape" where
  "schemaValidationObject cfg = schema cfg"

definition schemaValidationObjectWithId :: "dongoose \<Rightarrow> shape" where
  "schemaValidationObjectWithId cfg =
     extend_shape (schemaValidationObject cfg) [(''id'', string_uuid cfg)]"

definition schemaValidationPartialObject :: "dongoose \<Rightarrow> shape" where
  "schemaValidationPartialObject cfg = partial (schemaValidationObject cfg)"

definition schemaValidationPartialObjectWithId :: "dongoose \<Rightarrow> shape" where
  "schemaValidationPartialObjectWithId cfg =
     partial (extend_shape (schemaValidationObjectWithId cfg) [(''id'', string_uuid cfg)])"

subsection \<open>The operations\<close>

text \<open>
  Every operation takes the store and returns the store with its result; a raised
  exception is \<open>Inl\<close>, \<^verbatim>\<open>null\<close> is \<open>None\<close>. The identifier drawn by
  \<^verbatim>\<open>crypto.randomUUID()\<close> and the clock are arguments. The parameter \<^verbatim>\<open>id\<close> of the
  by-id operations is typed \<^verbatim>\<open>string\<close> and used as it comes, so it is a value here.
  An operation runs without another writer between its read and its commit.
\<close>

definition create :: "dongoose \<Rightarrow> kv \<Rightarrow> obj \<Rightarrow> string \<Rightarrow> int \<Rightarrow> (error + commit_result) \<times> kv" where
  "create cfg db data ident now =
     (if \<not> parse (schemaValidationObject cfg) data then (Inl ShapeViolation, db)
      else performTransaction db (name cfg) (schemaPrimaryIndexes cfg)
             (spread_onto [(''id'', JStr ident)] data) Set_op now)"

text \<open>\<^verbatim>\<open>results.find((result) => result.value)?.value ?? null\<close>: a stored record is an
  object, hence truthy.\<close>

fun first_value :: "obj option list \<Rightarrow> obj option" where
  "first_value [] = None"
| "first_value (None # rs) = first_value rs"
| "first_value (Some v # rs) = Some v"

definition findOne :: "dongoose \<Rightarrow> kv \<Rightarrow> obj \<Rightarrow> (error + obj option) \<times> kv" where
  "findOne cfg db query =
     (if \<not> parse (schemaValidationPartialObjectWithId cfg) query then (Inl ShapeViolation, db)
      else if length query = 0 then (Inr None, db)
      else case getMany db
                  (map (\<lambda>(k, v). [JStr (name cfg), JStr (getKeysWithIndexes (name cfg) k), v])
                     query) of
             (Inl e, db') \<Rightarrow> (Inl e, db')
           | (Inr results, db') \<Rightarrow> (Inr (first_value results), db'))"

text \<open>
  The loop of \<^verbatim>\<open>find\<close>. \<^verbatim>\<open>resultMap\<close> is used for its keys only. Its keys are the
  \<^verbatim>\<open>id\<close> values of scanned entries; a primitive is found again by value, an object or
  array only as the same reference, that is as the \<^verbatim>\<open>id\<close> of the same scanned entry, so
  each key carries the position of its entry in the scan.
\<close>

definition map_has :: "(nat \<times> jsval) list \<Rightarrow> nat \<times> jsval \<Rightarrow> bool" where
  "map_has resultMap r =
     (if is_object (snd r) then r \<in> set resultMap else snd r \<in> snd ` set resultMap)"

definition find_field ::
  "nat \<times> obj \<Rightarrow> obj list \<times> (nat \<times> jsval) list \<Rightarrow> string \<times> jsval \<Rightarrow> obj list \<times> (nat \<times> jsval) list" where
  "find_field entry st kv =
     (case (entry, st, kv) of ((i, val), (filteredResult, resultMap), (k, v)) \<Rightarrow>
        if strict_eq (get_prop val k) v
        then (if \<not> map_has resultMap (i, get_prop val ''id'')
              then (filteredResult @ [val], resultMap @ [(i, get_prop val ''id'')])
              else (filteredResult, resultMap))
        else (filteredResult, resultMap))"

definition find_entry ::
  "obj \<Rightarrow> obj list \<times> (nat \<times> jsval) list \<Rightarrow> nat \<times> obj \<Rightarrow> obj list \<times> (nat \<times> jsval) list" where
  "find_entry query st entry = foldl (find_field entry) st query"

definition find :: "dongoose \<Rightarrow> kv \<Rightarrow> obj \<Rightarrow> (error + obj list option) \<times> kv" where
  "find cfg db query =
     (if \<not> parse (schemaValidationPartialObjectWithId cfg) query then (Inl ShapeViolation, db)
      else if length query = 0 then (Inr None, db)
      else case list_prefix db [JStr (name cfg)] of
             (Inl e, db') \<Rightarrow> (Inl e, db')
           | (Inr es, db') \<Rightarrow>
               (Inr (Some (fst (foldl (find_entry query) ([], [])
                                  (zip [0 ..< length es] (map snd es))))), db'))"

definition findById :: "dongoose \<Rightarrow> kv \<Rightarrow> jsval \<Rightarrow> (error + obj option) \<times> kv" where
  "findById cfg db ident = findOne cfg db [(''id'', ident)]"

definition updateById ::
  "dongoose \<Rightarrow> kv \<Rightarrow> jsval \<Rightarrow> obj \<Rightarrow> int \<Rightarrow> (error + commit_result option) \<times> kv" where
  "updateById cfg db ident data now =
     (if \<not> parse (schemaValidationPartialObject cfg) data then (Inl ShapeViolation, db)
      else case findOne cfg db [(''id'', ident)] of
             (Inl e, db') \<Rightarrow> (Inl e, db')
           | (Inr None, db') \<Rightarrow> (Inr None, db')
           | (Inr (Some item), db') \<Rightarrow>
               (case performTransaction db' (name cfg) (schemaPrimaryIndexes cfg)
                       (deepMerge item data) Set_op now of
                  (Inl e, db'') \<Rightarrow> (Inl e, db'')
                | (Inr r, db'') \<Rightarrow> (Inr (Some r), db'')))"

definition updateOne ::
  "dongoose \<Rightarrow> kv \<Rightarrow> obj \<Rightarrow> obj \<Rightarrow> int \<Rightarrow> (error + commit_result option) \<times> kv" where
  "updateOne cfg db query data now =
     (if \<not> parse (schemaValidationPartialObject cfg) data then (Inl ShapeViolation, db)
      else case findOne cfg db query of
             (Inl e, db') \<Rightarrow> (Inl e, db')
           | (Inr None, db') \<Rightarrow> (Inr None, db')
           | (Inr (Some item), db') \<Rightarrow> updateById cfg db' (get_prop item ''id'') data now)"

definition deleteById ::
  "dongoose \<Rightarrow> kv \<Rightarrow> jsval \<Rightarrow> int \<Rightarrow> (error + commit_result option) \<times> kv" where
  "deleteById cfg db ident now =
     (case findOne cfg db [(''id'', ident)] of
        (Inl e, db') \<Rightarrow> (Inl e, db')
      | (Inr None, db') \<Rightarrow> (Inr None, db')
      | (Inr (Some item), db') \<Rightarrow>
          (case performTransaction db' (name cfg) (schemaPrimaryIndexes cfg)
                  item Delete_op now of
             (Inl e, db'') \<Rightarrow> (Inl e, db'')
           | (Inr r, db'') \<Rightarrow> (Inr (Some r), db'')))"

definition deleteOne ::
  "dongoose \<Rightarrow> kv \<Rightarrow> obj \<Rightarrow> int \<Rightarrow> (error + commit_result option) \<times> kv" where
  "deleteOne cfg db query now =
     (case findOne cfg db query of
        (Inl e, db') \<Rightarrow> (Inl e, db')
      | (Inr None, db') \<Rightarrow> (Inr None, db')
      | (Inr (Some item), db') \<Rightarrow>
          (case performTransaction db' (name cfg) (schemaPrimaryIndexes cfg)
                  item Delete_op now of
             (Inl e, db'') \<Rightarrow> (Inl e, db'')
           | (Inr r, db'') \<Rightarrow> (Inr (Some r), db'')))"

section \<open>Notions used to state the properties\<close>

definition is_string :: validator where
  "is_string v = (case v of JStr _ \<Rightarrow> True | _ \<Rightarrow> False)"

text \<open>The record \<^verbatim>\<open>create\<close> hands to \<^verbatim>\<open>performTransaction\<close>, after stamping.\<close>

definition new_record :: "string \<Rightarrow> obj \<Rightarrow> int \<Rightarrow> obj" where
  "new_record ident data now =
     updateTimestamps (spread_onto [(''id'', JStr ident)] data) True now"

text \<open>The store key a mutation addresses for one index of a record whose value there has
  a string conversion.\<close>

definition projection_key :: "string \<Rightarrow> obj \<Rightarrow> string \<Rightarrow> key" where
  "projection_key nm d index =
     [KStr nm, KStr (getKeysWithIndexes nm index), KStr (js_text (get_prop d index))]"

text \<open>The key array \<^verbatim>\<open>findOne({ id })\<close> asks the store for.\<close>

definition id_key :: "dongoose \<Rightarrow> string \<Rightarrow> jsval list" where
  "id_key cfg s = [JStr (name cfg), JStr (getKeysWithIndexes (name cfg) ''id''), JStr s]"

text \<open>The records under the collection's prefix, in the order of the scan.\<close>

definition scan :: "dongoose \<Rightarrow> kv \<Rightarrow> obj list" where
  "scan cfg db =
     map (\<lambda>(k, v, _). v) (filter (\<lambda>(k, _). has_prefix [KStr (name cfg)] k) (entries db))"

text \<open>A record matches a query when some queried field is strictly equal to the query's
  value for it.\<close>

definition matches :: "obj \<Rightarrow> obj \<Rightarrow> bool" where
  "matches query r = list_ex (\<lambda>(k, v). strict_eq (get_prop r k) v) query"

text \<open>The first record of each \<^verbatim>\<open>id\<close>, in order. An \<^verbatim>\<open>id\<close> that is an object or an
  array is never met again (two entries never share a reference).\<close>

fun first_by_id :: "jsval list \<Rightarrow> obj list \<Rightarrow> obj list" where
  "first_by_id seen [] = []"
| "first_by_id seen (r # rs) =
     (if \<not> is_object (get_prop r ''id'') \<and> get_prop r ''id'' \<in> set seen
      then first_by_id seen rs
      else r # first_by_id (seen @ [get_prop r ''id'']) rs)"

section \<open>Example collection\<close>

text \<open>The textual form of a UUID that the validation library tests: groups of 8, 4, 4, 4
  and 12 hexadecimal digits, the third group starting with a version digit from 1 to 5;
  or the nil UUID.\<close>

definition hex_digit :: "char \<Rightarrow> bool" where
  "hex_digit c = (c \<in> set ''0123456789abcdefABCDEF'')"

definition uuid_form :: "string \<Rightarrow> bool" where
  "uuid_form s =
     (s = ''00000000-0000-0000-0000-000000000000'' \<or>
      (length s = 36 \<and>
       list_all hex_digit (take 8 s) \<and> s ! 8 = CHR ''-'' \<and>
       list_all hex_digit (take 4 (drop 9 s)) \<and> s ! 13 = CHR ''-'' \<and>
       s ! 14 \<in> set ''12345'' \<and>
       list_all hex_digit (take 3 (drop 15 s)) \<and> s ! 18 = CHR ''-'' \<and>
       list_all hex_digit (take 4 (drop 19 s)) \<and> s ! 23 = CHR ''-'' \<and>
       list_all hex_digit (take 12 (drop 24 s))))"

text \<open>The collection of the specification's scenario: \<^verbatim>\<open>users\<close> with the declared
  field \<^verbatim>\<open>email\<close>, a string, as primary index. The stores are the empty one, the one
  after a first user was created, and the one after a second.\<close>

definition users :: dongoose where
  "users = \<lparr>schema = [(''email'', is_string)], name = ''users'',
            primaryIndexes = Some [''email''], secondaryIndexes = None,
            uuid = uuid_form\<rparr>"

definition empty_db :: kv where
  "empty_db = \<lparr>entries = [], version = 0, calls = []\<rparr>"

definition U1 :: string where
  "U1 = ''00000000-0000-4000-8000-000000000001''"

definition U2 :: string where
  "U2 = ''00000000-0000-4000-8000-000000000002''"

definition U3 :: string where
  "U3 = ''00000000-0000-4000-8000-000000000003''"

definition user1 :: obj where
  "user1 = [(''id'', JStr U1), (''email'', JStr ''a@x.com''),
            (''createdAt'', JNum 1000), (''updatedAt'', JNum 1000)]"

definition user2 :: obj where
  "user2 = [(''id'', JStr U2), (''email'', JStr ''b@x.com''),
            (''createdAt'', JNum 1001), (''updatedAt'', JNum 1001)]"

definition users_db1 :: kv where
  "users_db1 = snd (create users empty_db [(''email'', JStr ''a@x.com'')] U1 1000)"

definition users_db2 :: kv where
  "users_db2 = snd (create users users_db1 [(''email'', JStr ''b@x.com'')] U2 1001)"

section \<open>Records\<close>

lemma get_prop_Nil: "get_prop [] k = JUndefined"
  by (simp add: get_prop_def)

lemma get_prop_snoc: "get_prop (ob @ [(k, v)]) k' = (if k' = k then v else get_prop ob k')"
  by (simp add: get_prop_def)

lemma map_of_overwrite:
  "map_of (map (\<lambda>(a, b). if a = k then (a, v) else (a, b)) xs) q =
     (if q = k \<and> k \<in> fst ` set xs then Some v else map_of xs q)"
proof (induction xs)
  case Nil
  then show ?case by simp
next
  case (Cons x xs)
  obtain a b where x: "x = (a, b)" by (cases x)
  show ?case
    using Cons.IH by (cases "q = k"; cases "a = k"; simp add: x)
qed

lemma map_of_rev_None: "(map_of (rev xs) k = None) = (k \<notin> fst ` set xs)"
  by (simp add: map_of_eq_None_iff)

lemma get_prop_set_prop: "get_prop (set_prop ob k v) k' = (if k' = k then v else get_prop ob k')"
proof (cases "k \<in> fst ` set ob")
  case True
  then have "k \<in> fst ` set (rev ob)" by simp
  then show ?thesis
    using True by (simp add: set_prop_def get_prop_def rev_map map_of_overwrite)
next
  case False
  then show ?thesis by (simp add: set_prop_def get_prop_snoc)
qed

lemma keys_set_prop: "fst ` set (set_prop ob k v) = insert k (fst ` set ob)"
  by (auto simp: set_prop_def image_iff split: if_splits) force+

lemma get_prop_absent: "k \<notin> fst ` set ob \<Longrightarrow> get_prop ob k = JUndefined"
  by (simp add: get_prop_def map_of_rev_None [THEN iffD2])

lemma get_prop_Cons:
  "get_prop ((k0, v0) # xs) k =
     (if k \<in> fst ` set xs then get_prop xs k else if k = k0 then v0 else JUndefined)"
proof (cases "map_of (rev xs) k")
  case None
  then have "k \<notin> fst ` set xs" by (simp add: map_of_rev_None)
  with None show ?thesis by (simp add: get_prop_def map_add_def)
next
  case (Some w)
  then have "map_of (rev xs) k \<noteq> None" by simp
  then have "k \<in> fst ` set xs" by (simp add: map_of_rev_None)
  with Some show ?thesis by (simp add: get_prop_def map_add_def)
qed

lemma get_prop_foldl_set_prop:
  "get_prop (foldl (\<lambda>acc (k, v). set_prop acc k v) base data) k =
     (if k \<in> fst ` set data then get_prop data k else get_prop base k)"
proof (induction data arbitrary: base)
  case Nil
  then show ?case by simp
next
  case (Cons x xs)
  obtain k0 v0 where x: "x = (k0, v0)" by (cases x)
  show ?case
    by (simp add: x Cons.IH get_prop_set_prop get_prop_Cons)
qed

lemma get_prop_spread_onto:
  "get_prop (spread_onto base data) k =
     (if k \<in> fst ` set data then get_prop data k else get_prop base k)"
  by (simp add: spread_onto_def get_prop_foldl_set_prop)

lemma spread_onto_fresh:
  "distinct (map fst data) \<Longrightarrow> fst ` set data \<inter> fst ` set base = {} \<Longrightarrow>
   spread_onto base data = base @ data"
proof (induction data arbitrary: base)
  case Nil
  then show ?case by (simp add: spread_onto_def)
next
  case (Cons x xs)
  obtain k0 v0 where x: "x = (k0, v0)" by (cases x)
  from Cons.prems have fresh: "k0 \<notin> fst ` set base" by (auto simp: x)
  then have step: "set_prop base k0 v0 = base @ [(k0, v0)]" by (simp add: set_prop_def)
  from Cons.prems have "distinct (map fst xs)" and "fst ` set xs \<inter> fst ` set (base @ [(k0, v0)]) = {}"
    by (auto simp: x)
  from Cons.IH [OF this] show ?case
    by (simp add: spread_onto_def x step)
qed

lemma get_prop_updateTimestamps:
  "get_prop (updateTimestamps data ins now) k =
     (if k = ''updatedAt'' \<or> (ins \<and> k = ''createdAt'') then JNum now else get_prop data k)"
  by (simp add: updateTimestamps_def Let_def get_prop_set_prop)

lemma updateTimestamps_fresh:
  "''createdAt'' \<notin> fst ` set data \<Longrightarrow> ''updatedAt'' \<notin> fst ` set data \<Longrightarrow>
   updateTimestamps data True now = data @ [(''createdAt'', JNum now), (''updatedAt'', JNum now)]"
  by (simp add: updateTimestamps_def Let_def set_prop_def)

section \<open>Store and transactions\<close>

lemma map_of_kv_insert: "map_of (kv_insert k v es) = (map_of es)(k \<mapsto> v)"
  by (induction es) (auto simp: fun_eq_iff)

lemma map_of_kv_remove: "map_of (kv_remove k es) = (map_of es)(k := None)"
  by (induction es) (auto simp: kv_remove_def fun_eq_iff)

lemma map_of_foldl_set:
  "map_of (foldl (\<lambda>es m. apply_mutation n m es) es (map (\<lambda>k. (Set_op, k, d)) ks)) k =
     (if k \<in> set ks then Some (d, n) else map_of es k)"
  by (induction ks arbitrary: es) (auto simp: map_of_kv_insert)

lemma map_of_foldl_delete:
  "map_of (foldl (\<lambda>es m. apply_mutation n m es) es (map (\<lambda>k. (Delete_op, k, d)) ks)) k =
     (if k \<in> set ks then None else map_of es k)"
  by (induction ks arbitrary: es) (auto simp: map_of_kv_remove)

lemma to_mutations_map:
  "to_mutations (map (\<lambda>k. (oper, k, d)) jks) =
     (case to_keys jks of Inl e \<Rightarrow> Inl e | Inr ks \<Rightarrow> Inr (map (\<lambda>k. (oper, k, d)) ks))"
  by (induction jks) (auto split: sum.splits)

lemma to_key_str3: "to_key [JStr a, JStr b, JStr c] = Inr [KStr a, KStr b, KStr c]"
  by (simp add: to_keypart_def)

lemma mutation_keys_to_keys:
  "mutation_keys nm d ix = Inr jks \<Longrightarrow> to_keys jks = Inr (map (projection_key nm d) ix)"
proof (induction ix arbitrary: jks)
  case Nil
  then show ?case by simp
next
  case (Cons index rest)
  then show ?case
    by (auto simp: mutation_key_def js_toString_def projection_key_def to_keypart_def
             split: sum.splits if_splits)
qed

lemma performTransaction_unfold:
  "performTransaction db nm ix data oper now =
     (let d = updateTimestamps data (oper = Set_op) now
      in case mutation_keys nm d ix of
           Inl e \<Rightarrow> (Inl e, db)
         | Inr jks \<Rightarrow>
            (case to_keys (map (check_key nm d) ix) of
               Inl e \<Rightarrow> (Inl e, db\<lparr>calls := calls db @ [CallCommit]\<rparr>)
             | Inr cks \<Rightarrow>
                 if list_all (\<lambda>k. kv_lookup db k = None) cks
                 then (Inr (CommitResult (Suc (version db))),
                       db\<lparr>calls := calls db @ [CallCommit],
                          entries := foldl (\<lambda>es m. apply_mutation (Suc (version db)) m es)
                                       (entries db)
                                       (map (\<lambda>k. (oper, k, d)) (map (projection_key nm d) ix)),
                          version := Suc (version db)\<rparr>)
                 else (Inr CommitError, db\<lparr>calls := calls db @ [CallCommit]\<rparr>)))"
  by (auto simp: performTransaction_def buildTransaction_def commit_def Let_def
        to_mutations_map dest!: mutation_keys_to_keys split: sum.splits)

lemma performTransaction_entries:
  assumes "performTransaction db nm ix data oper now = (r, db')"
  shows "(\<forall>n. r \<noteq> Inr (CommitResult n)) \<longrightarrow> entries db' = entries db \<and> version db' = version db"
  using assms unfolding performTransaction_unfold
  by (auto simp: Let_def split: sum.splits if_splits)

lemma to_keys_check_key_member:
  "to_keys (map (check_key nm d) ix) = Inr cks \<Longrightarrow> index \<in> set ix \<Longrightarrow>
   get_prop d index = JStr s \<Longrightarrow>
   [KStr nm, KStr (getKeysWithIndexes nm index), KStr s] \<in> set cks"
proof (induction ix arbitrary: cks)
  case Nil
  then show ?case by simp
next
  case (Cons a rest)
  then show ?case
    by (auto simp: check_key_def to_keypart_def split: sum.splits)
qed

lemma to_keys_check_key_strings:
  "\<forall>index \<in> set ix. is_string (get_prop d index) \<Longrightarrow>
   to_keys (map (check_key nm d) ix) = Inr (map (projection_key nm d) ix)"
  by (induction ix)
     (auto simp: check_key_def to_keypart_def projection_key_def is_string_def
           split: jsval.splits)

lemma mutation_keys_strings:
  "\<forall>index \<in> set ix. is_string (get_prop d index) \<Longrightarrow>
   \<exists>jks. mutation_keys nm d ix = Inr jks"
  by (induction ix)
     (auto simp: mutation_key_def js_toString_def is_string_def split: jsval.splits)

text \<open>A transaction whose record has a string at an index whose key is taken does not commit.\<close>

lemma performTransaction_taken:
  assumes "performTransaction db nm ix data oper now = (r, db')"
    and "index \<in> set ix"
    and "get_prop (updateTimestamps data (oper = Set_op) now) index = JStr s"
    and "kv_lookup db [KStr nm, KStr (getKeysWithIndexes nm index), KStr s] \<noteq> None"
  shows "r = Inr CommitError \<or> (\<exists>e. r = Inl e)"
proof -
  let ?d = "updateTimestamps data (oper = Set_op) now"
  show ?thesis
  proof (cases "mutation_keys nm ?d ix")
    case (Inl e)
    with assms(1) show ?thesis by (auto simp: performTransaction_unfold Let_def)
  next
    case mk: (Inr jks)
    show ?thesis
    proof (cases "to_keys (map (check_key nm ?d) ix)")
      case (Inl e)
      with assms(1) mk show ?thesis by (auto simp: performTransaction_unfold Let_def)
    next
      case (Inr cks)
      from to_keys_check_key_member [OF Inr assms(2) assms(3)] assms(4)
      have "\<not> list_all (\<lambda>k. kv_lookup db k = None) cks"
        by (auto simp: list_all_iff)
      with assms(1) mk Inr show ?thesis by (auto simp: performTransaction_unfold Let_def)
    qed
  qed
qed

text \<open>A committed set transaction stores the stamped record under every projection key.\<close>

lemma performTransaction_set_ok:
  assumes "performTransaction db nm ix data Set_op now = (Inr (CommitResult n), db')"
  shows "n = Suc (version db) \<and>
         (\<forall>k. kv_lookup db' k =
            (if k \<in> projection_key nm (updateTimestamps data True now) ` set ix
             then Some (updateTimestamps data True now, n) else kv_lookup db k))"
  using assms unfolding performTransaction_unfold
  by (auto simp: Let_def kv_lookup_def map_of_foldl_set simp del: map_map
        split: sum.splits if_splits)

lemma performTransaction_set_free:
  assumes "\<forall>index \<in> set ix. is_string (get_prop (updateTimestamps data True now) index)"
    and "\<forall>index \<in> set ix. kv_lookup db (projection_key nm (updateTimestamps data True now) index) = None"
  shows "fst (performTransaction db nm ix data Set_op now) = Inr (CommitResult (Suc (version db)))"
proof -
  let ?d = "updateTimestamps data True now"
  from mutation_keys_strings [OF assms(1)] obtain jks where "mutation_keys nm ?d ix = Inr jks" ..
  moreover note to_keys_check_key_strings [OF assms(1), of nm]
  moreover have "list_all (\<lambda>k. kv_lookup db k = None) (map (projection_key nm ?d) ix)"
    using assms(2) by (simp add: list_all_iff)
  ultimately show ?thesis
    by (simp add: performTransaction_unfold Let_def)
qed

lemma get_prop_new_record:
  "get_prop (new_record ident data now) k =
     (if k = ''updatedAt'' \<or> k = ''createdAt'' then JNum now
      else if k \<in> fst ` set data then get_prop data k
      else if k = ''id'' then JStr ident else JUndefined)"
proof -
  have base: "get_prop [(''id'', JStr ident)] k = (if k = ''id'' then JStr ident else JUndefined)"
    by (simp add: get_prop_def)
  show ?thesis
    by (simp add: new_record_def get_prop_updateTimestamps get_prop_spread_onto base)
qed

lemma get_prop_not_undefined: "get_prop d k \<noteq> JUndefined \<Longrightarrow> k \<in> fst ` set d"
  using get_prop_absent by blast

lemma parse_id_query:
  "parse (schemaValidationPartialObjectWithId cfg) [(''id'', v)] =
     (v = JUndefined \<or> string_uuid cfg v)"
proof -
  have other: "get_prop [(''id'', v)] k = JUndefined" if "k \<noteq> ''id''" for k
    using that by (simp add: get_prop_def)
  have this_one: "get_prop [(''id'', v)] ''id'' = v"
    by (simp add: get_prop_def)
  show ?thesis
    by (auto simp: parse_def schemaValidationPartialObjectWithId_def
          schemaValidationObjectWithId_def partial_def extend_shape_def list_all_iff
          other this_one)
qed

lemma findOne_id:
  "findOne cfg db [(''id'', JStr s)] =
     (if uuid cfg s
      then (Inr (map_option fst
                  (kv_lookup db [KStr (name cfg), KStr (getKeysWithIndexes (name cfg) ''id''), KStr s])),
            db\<lparr>calls := calls db @ [CallGetMany [id_key cfg s]]\<rparr>)
      else (Inl ShapeViolation, db))"
proof -
  have "first_value [map_option fst x] = map_option fst x" for x :: "(obj \<times> nat) option"
    by (cases x) simp_all
  then show ?thesis
    by (simp add: findOne_def parse_id_query string_uuid_def getMany_def Let_def id_key_def
          to_keypart_def)
qed

section \<open>The loop of find\<close>

lemma find_field_has:
  "map_has resultMap (i, get_prop val ''id'') \<Longrightarrow>
   foldl (find_field (i, val)) (filteredResult, resultMap) query = (filteredResult, resultMap)"
  by (induction query) (auto simp: find_field_def)

lemma map_has_snoc: "map_has (resultMap @ [r]) r"
  by (simp add: map_has_def)

lemma find_entry_step:
  "find_entry query (filteredResult, resultMap) (i, val) =
     (if matches query val \<and> \<not> map_has resultMap (i, get_prop val ''id'')
      then (filteredResult @ [val], resultMap @ [(i, get_prop val ''id'')])
      else (filteredResult, resultMap))"
proof (cases "map_has resultMap (i, get_prop val ''id'')")
  case True
  then show ?thesis by (simp add: find_entry_def find_field_has)
next
  case False
  then have "foldl (find_field (i, val)) (filteredResult, resultMap) query =
     (if list_ex (\<lambda>(k, v). strict_eq (get_prop val k) v) query
      then (filteredResult @ [val], resultMap @ [(i, get_prop val ''id'')])
      else (filteredResult, resultMap))"
  proof (induction query)
    case Nil
    then show ?case by simp
  next
    case (Cons f fs)
    obtain k v where f: "f = (k, v)" by (cases f)
    show ?case
    proof (cases "strict_eq (get_prop val k) v")
      case True
      with Cons.prems have "find_field (i, val) (filteredResult, resultMap) f =
          (filteredResult @ [val], resultMap @ [(i, get_prop val ''id'')])"
        by (simp add: find_field_def f)
      with True show ?thesis
        by (simp add: f find_field_has map_has_snoc)
    next
      case False
      then have "find_field (i, val) (filteredResult, resultMap) f = (filteredResult, resultMap)"
        by (simp add: find_field_def f)
      with False Cons show ?thesis by (simp add: f)
    qed
  qed
  with False show ?thesis by (simp add: find_entry_def matches_def)
qed

lemma map_has_later:
  "\<forall>r \<in> set resultMap. fst r < n \<Longrightarrow>
   map_has resultMap (n, w) = (\<not> is_object w \<and> w \<in> set (map snd resultMap))"
  by (auto simp: map_has_def)

lemma find_loop:
  "\<forall>r \<in> set resultMap. fst r < n \<Longrightarrow>
   fst (foldl (find_entry query) (filteredResult, resultMap) (zip [n ..< n + length vals] vals)) =
     filteredResult @ first_by_id (map snd resultMap) (filter (matches query) vals)"
proof (induction vals arbitrary: filteredResult resultMap n)
  case Nil
  then show ?case by simp
next
  case (Cons val vals)
  have z: "zip [n ..< n + length (val # vals)] (val # vals) =
             (n, val) # zip [Suc n ..< Suc n + length vals] vals"
    by (simp add: upt_conv_Cons del: upt_Suc)
  show ?case
  proof (cases "matches query val \<and> \<not> map_has resultMap (n, get_prop val ''id'')")
    case True
    have inv: "\<forall>r \<in> set (resultMap @ [(n, get_prop val ''id'')]). fst r < Suc n"
      using Cons.prems by auto
    from True have keep: "\<not> (\<not> is_object (get_prop val ''id'') \<and>
                              get_prop val ''id'' \<in> set (map snd resultMap))"
      using map_has_later [OF Cons.prems] by simp
    have step: "find_entry query (filteredResult, resultMap) (n, val) =
                  (filteredResult @ [val], resultMap @ [(n, get_prop val ''id'')])"
      using True by (simp add: find_entry_step)
    have "fst (foldl (find_entry query) (filteredResult, resultMap)
                 (zip [n ..< n + length (val # vals)] (val # vals))) =
          fst (foldl (find_entry query)
                 (filteredResult @ [val], resultMap @ [(n, get_prop val ''id'')])
                 (zip [Suc n ..< Suc n + length vals] vals))"
      by (simp only: z foldl_Cons step)
    also have "\<dots> = (filteredResult @ [val]) @
                 first_by_id (map snd (resultMap @ [(n, get_prop val ''id'')]))
                   (filter (matches query) vals)"
      by (rule Cons.IH [OF inv])
    also have "\<dots> = filteredResult @
                 first_by_id (map snd resultMap) (filter (matches query) (val # vals))"
      using True keep by auto
    finally show ?thesis .
  next
    case False
    have inv: "\<forall>r \<in> set resultMap. fst r < Suc n"
      using Cons.prems by auto
    from False have skip: "matches query val \<longrightarrow>
        \<not> is_object (get_prop val ''id'') \<and> get_prop val ''id'' \<in> set (map snd resultMap)"
      using map_has_later [OF Cons.prems] by simp
    have step: "find_entry query (filteredResult, resultMap) (n, val) =
                  (filteredResult, resultMap)"
      using False by (simp add: find_entry_step)
    have "fst (foldl (find_entry query) (filteredResult, resultMap)
                 (zip [n ..< n + length (val # vals)] (val # vals))) =
          fst (foldl (find_entry query) (filteredResult, resultMap)
                 (zip [Suc n ..< Suc n + length vals] vals))"
      by (simp only: z foldl_Cons step)
    also have "\<dots> = filteredResult @
                 first_by_id (map snd resultMap) (filter (matches query) vals)"
      by (rule Cons.IH [OF inv])
    also have "\<dots> = filteredResult @
                 first_by_id (map snd resultMap) (filter (matches query) (val # vals))"
      using skip by auto
    finally show ?thesis .
  qed
qed

section \<open>Index sets\<close>

lemma new_Set_foldl:
  "distinct acc \<Longrightarrow>
   distinct (foldl (\<lambda>acc x. if x \<in> set acc then acc else acc @ [x]) acc xs) \<and>
   set (foldl (\<lambda>acc x. if x \<in> set acc then acc else acc @ [x]) acc xs) = set acc \<union> set xs"
  by (induction xs arbitrary: acc) auto

lemma distinct_new_Set: "distinct (new_Set xs)"
  using new_Set_foldl [of "[]" xs] by (simp add: new_Set_def)

lemma set_new_Set: "set (new_Set xs) = set xs"
  using new_Set_foldl [of "[]" xs] by (simp add: new_Set_def)

lemma count_list_distinct: "distinct xs \<Longrightarrow> x \<in> set xs \<Longrightarrow> count_list xs x = 1"
  by (induction xs) auto

text \<open>
  Claim C9. Whatever index lists the caller supplies (or omits), the effective primary
  index list and the effective secondary index list have no duplicate field name and
  contain \<^verbatim>\<open>id\<close> exactly once; they hold the supplied fields and \<^verbatim>\<open>id\<close>, nothing else,
  so the primary list is never empty: a record is always projected onto its \<^verbatim>\<open>id\<close> key.
\<close>

theorem effective_indexes_contain_id_once:
  "distinct (schemaPrimaryIndexes cfg) \<and>
   count_list (schemaPrimaryIndexes cfg) ''id'' = 1 \<and>
   distinct (schemaSecondaryIndexes cfg) \<and>
   count_list (schemaSecondaryIndexes cfg) ''id'' = 1 \<and>
   set (schemaPrimaryIndexes cfg) =
     set (case primaryIndexes cfg of None \<Rightarrow> [] | Some xs \<Rightarrow> xs) \<union> {''id''} \<and>
   set (schemaSecondaryIndexes cfg) =
     set (case secondaryIndexes cfg of None \<Rightarrow> [] | Some xs \<Rightarrow> xs) \<union> {''id''} \<and>
   1 \<le> length (schemaPrimaryIndexes cfg)"
proof -
  have p: "distinct (schemaPrimaryIndexes cfg)" and s: "distinct (schemaSecondaryIndexes cfg)"
    by (simp_all add: schemaPrimaryIndexes_def schemaSecondaryIndexes_def distinct_new_Set)
  have pm: "''id'' \<in> set (schemaPrimaryIndexes cfg)"
    and sm: "''id'' \<in> set (schemaSecondaryIndexes cfg)"
    by (simp_all add: schemaPrimaryIndexes_def schemaSecondaryIndexes_def set_new_Set)
  have len: "1 \<le> length (schemaPrimaryIndexes cfg)"
    using pm by (cases "schemaPrimaryIndexes cfg") auto
  show ?thesis
    using p s pm sm len
    by (simp add: count_list_distinct)
       (simp add: schemaPrimaryIndexes_def schemaSecondaryIndexes_def set_new_Set)
qed

section \<open>Empty queries\<close>

lemma parse_partial_empty: "parse (partial sh) []"
  by (auto simp: parse_def partial_def list_all_iff get_prop_def)

text \<open>
  Claim C7. \<^verbatim>\<open>findOne({})\<close> and \<^verbatim>\<open>find({})\<close> return \<^verbatim>\<open>null\<close> and hand the store back
  as it was, call log included: no read (and no other call) reaches the store.
\<close>

theorem empty_query_returns_null_without_read:
  "findOne cfg db [] = (Inr None, db) \<and> find cfg db [] = (Inr None, db)"
  by (simp add: findOne_def find_def schemaValidationPartialObjectWithId_def
        parse_partial_empty)

section \<open>Check keys and mutation keys\<close>

lemma mutation_keys_nth:
  "mutation_keys nm data indexes = Inr ks \<Longrightarrow>
   length ks = length indexes \<and>
   (\<forall>i < length indexes. mutation_key nm data (indexes ! i) = Inr (ks ! i))"
proof (induction indexes arbitrary: ks)
  case Nil
  then show ?case by simp
next
  case (Cons index rest)
  then show ?case
    by (auto split: sum.splits simp: nth_Cons split: nat.splits)
qed

lemma to_key_3:
  "to_key [JStr a, JStr b, v] =
     (case to_keypart v of Inl e \<Rightarrow> Inl e | Inr p \<Rightarrow> Inr [KStr a, KStr b, p])"
  by (simp add: to_keypart_def split: sum.splits)

text \<open>
  Claim C10. In the atomic operation \<^verbatim>\<open>performTransaction\<close> builds, take the \<open>i\<close>-th
  primary index field. If the stamped record's value for it is a string \<open>s\<close>, the checked
  key and the mutated key are the same array, the key
  \<open>[collection, collection_by_field, s]\<close>. If the value is not a string, the checked key
  (raw value) and the mutated key (string conversion) never denote the same store key.
\<close>

theorem check_key_vs_mutation_key:
  assumes "buildTransaction nm indexes data oper now = Inr t" and "i < length indexes"
  shows "(\<forall>s. get_prop (updateTimestamps data (oper = Set_op) now) (indexes ! i) = JStr s \<longrightarrow>
            checks t ! i = fst (snd (mutations t ! i)) \<and>
            to_key (checks t ! i) =
              Inr [KStr nm, KStr (getKeysWithIndexes nm (indexes ! i)), KStr s]) \<and>
         ((\<forall>s. get_prop (updateTimestamps data (oper = Set_op) now) (indexes ! i) \<noteq> JStr s) \<longrightarrow>
            to_key (checks t ! i) \<noteq> to_key (fst (snd (mutations t ! i))))"
proof -
  define data' where "data' = updateTimestamps data (oper = Set_op) now"
  obtain ks where ks: "mutation_keys nm data' indexes = Inr ks"
    and t: "t = \<lparr>checks = map (check_key nm data') indexes,
                 mutations = map (\<lambda>k. (oper, k, data')) ks\<rparr>"
    using assms(1) by (auto simp: buildTransaction_def Let_def data'_def split: sum.splits)
  from mutation_keys_nth [OF ks] assms(2)
  have len: "length ks = length indexes"
    and mk: "mutation_key nm data' (indexes ! i) = Inr (ks ! i)"
    by auto
  have c: "checks t ! i = check_key nm data' (indexes ! i)"
    using t assms(2) by simp
  have m: "fst (snd (mutations t ! i)) = ks ! i"
    using t assms(2) len by simp
  obtain s' where s': "js_toString (get_prop data' (indexes ! i)) = Inr s'"
    and ki: "ks ! i = [JStr nm, JStr (getKeysWithIndexes nm (indexes ! i)), JStr s']"
    using mk by (auto simp: mutation_key_def split: sum.splits)
  have mkey: "to_key (ks ! i) = Inr [KStr nm, KStr (getKeysWithIndexes nm (indexes ! i)), KStr s']"
    unfolding ki by (simp add: to_keypart_def)
  have ckey: "to_key (check_key nm data' (indexes ! i)) =
                (case to_keypart (get_prop data' (indexes ! i)) of
                   Inl e \<Rightarrow> Inl e
                 | Inr p \<Rightarrow> Inr [KStr nm, KStr (getKeysWithIndexes nm (indexes ! i)), p])"
    unfolding check_key_def by (rule to_key_3)
  have str: "checks t ! i = fst (snd (mutations t ! i)) \<and>
             to_key (checks t ! i) =
               Inr [KStr nm, KStr (getKeysWithIndexes nm (indexes ! i)), KStr s]"
    if "get_prop data' (indexes ! i) = JStr s" for s
  proof -
    from s' that have "s' = s" by (simp add: js_toString_def)
    then show ?thesis
      using that by (simp add: c m ki check_key_def to_keypart_def)
  qed
  have nonstr: "to_key (checks t ! i) \<noteq> to_key (fst (snd (mutations t ! i)))"
    if "\<forall>s. get_prop data' (indexes ! i) \<noteq> JStr s"
    using that unfolding c m mkey ckey
    by (cases "get_prop data' (indexes ! i)") (simp_all add: to_keypart_def)
  show ?thesis
    unfolding data'_def [symmetric] using str nonstr by blast
qed

text \<open>The theorem at a record indexed by \<^verbatim>\<open>id\<close> (a string) and by \<^verbatim>\<open>createdAt\<close>
  (the number just stamped): the first pair of keys coincides, the second pair is the
  number \<open>5\<close> against the string \<open>''5''\<close>.\<close>

theorem check_key_vs_mutation_key_witness:
  "buildTransaction ''users'' [''id'', ''createdAt''] [(''id'', JStr ''u'')] Set_op 5 =
     Inr \<lparr>checks = [[JStr ''users'', JStr ''users_by_id'', JStr ''u''],
                     [JStr ''users'', JStr ''users_by_createdAt'', JNum 5]],
          mutations =
            [(Set_op, [JStr ''users'', JStr ''users_by_id'', JStr ''u''],
              [(''id'', JStr ''u''), (''createdAt'', JNum 5), (''updatedAt'', JNum 5)]),
             (Set_op, [JStr ''users'', JStr ''users_by_createdAt'', JStr ''5''],
              [(''id'', JStr ''u''), (''createdAt'', JNum 5), (''updatedAt'', JNum 5)])]\<rparr> \<and>
   to_key [JStr ''users'', JStr ''users_by_id'', JStr ''u''] =
     Inr [KStr ''users'', KStr ''users_by_id'', KStr ''u''] \<and>
   to_key [JStr ''users'', JStr ''users_by_createdAt'', JNum 5] \<noteq>
     to_key [JStr ''users'', JStr ''users_by_createdAt'', JStr ''5'']"
proof -
  let ?t = "\<lparr>checks = [[JStr ''users'', JStr ''users_by_id'', JStr ''u''],
                     [JStr ''users'', JStr ''users_by_createdAt'', JNum 5]],
          mutations =
            [(Set_op, [JStr ''users'', JStr ''users_by_id'', JStr ''u''],
              [(''id'', JStr ''u''), (''createdAt'', JNum 5), (''updatedAt'', JNum 5)]),
             (Set_op, [JStr ''users'', JStr ''users_by_createdAt'', JStr ''5''],
              [(''id'', JStr ''u''), (''createdAt'', JNum 5), (''updatedAt'', JNum 5)])]\<rparr>"
  have build: "buildTransaction ''users'' [''id'', ''createdAt''] [(''id'', JStr ''u'')] Set_op 5
                 = Inr ?t"
    by code_simp
  have i0: "(0::nat) < length [''id'', ''createdAt'']"
    and i1: "(1::nat) < length [''id'', ''createdAt'']"
    by simp_all
  have v0: "get_prop (updateTimestamps [(''id'', JStr ''u'')] (Set_op = Set_op) 5)
              ([''id'', ''createdAt''] ! 0) = JStr ''u''"
    by (simp add: updateTimestamps_def set_prop_def get_prop_def)
  have v1: "\<forall>s. get_prop (updateTimestamps [(''id'', JStr ''u'')] (Set_op = Set_op) 5)
              ([''id'', ''createdAt''] ! 1) \<noteq> JStr s"
    by (simp add: updateTimestamps_def set_prop_def get_prop_def)
  from check_key_vs_mutation_key [OF build i0] v0
  have a: "to_key (checks ?t ! 0) =
             Inr [KStr ''users'', KStr (getKeysWithIndexes ''users'' ([''id'', ''createdAt''] ! 0)),
                  KStr ''u'']"
    by blast
  from check_key_vs_mutation_key [OF build i1] v1
  have b: "to_key (checks ?t ! 1) \<noteq> to_key (fst (snd (mutations ?t ! 1)))"
    by blast
  have a': "to_key [JStr ''users'', JStr ''users_by_id'', JStr ''u''] =
              Inr [KStr ''users'', KStr ''users_by_id'', KStr ''u'']"
    using a by (simp add: getKeysWithIndexes_def)
  have b': "to_key [JStr ''users'', JStr ''users_by_createdAt'', JNum 5] \<noteq>
              to_key [JStr ''users'', JStr ''users_by_createdAt'', JStr ''5'']"
    using b by simp
  show ?thesis
    using build a' b' by blast
qed

section \<open>Uniqueness of primary index values\<close>

text \<open>
  Claim C1, as amended. Two \<^verbatim>\<open>create\<close> calls, committed one after the other in either
  order, supply data with the same string value for a primary index field (other than the
  two timestamps, which \<^verbatim>\<open>create\<close> overwrites). Then the two commits never both succeed:
  once the first has succeeded, the second returns the failed commit result or raises.
  Exactly one succeeds, and the other returns the failed commit result, when in addition
  both data pass validation, every primary index field of both records is a string, and
  none of the first record's projection keys is present in the store beforehand.
\<close>

theorem create_equal_values_at_most_one:
  assumes F: "F \<in> set (schemaPrimaryIndexes cfg)" "F \<noteq> ''createdAt''" "F \<noteq> ''updatedAt''"
    and v: "get_prop d1 F = JStr v" "get_prop d2 F = JStr v"
    and c1: "create cfg db d1 id1 t1 = (r1, db1)"
    and c2: "create cfg db1 d2 id2 t2 = (r2, db2)"
  shows "((\<exists>n. r1 = Inr (CommitResult n)) \<longrightarrow> r2 = Inr CommitError \<or> (\<exists>e. r2 = Inl e)) \<and>
         (parse (schemaValidationObject cfg) d1 \<and> parse (schemaValidationObject cfg) d2 \<and>
          (\<forall>G \<in> set (schemaPrimaryIndexes cfg).
             is_string (get_prop (new_record id1 d1 t1) G) \<and>
             is_string (get_prop (new_record id2 d2 t2) G) \<and>
             kv_lookup db (projection_key (name cfg) (new_record id1 d1 t1) G) = None)
          \<longrightarrow> r1 = Inr (CommitResult (Suc (version db))) \<and> r2 = Inr CommitError)"
proof -
  let ?K = "[KStr (name cfg), KStr (getKeysWithIndexes (name cfg) F), KStr v]"
  have rec1: "get_prop (new_record id1 d1 t1) F = JStr v"
    using F v(1) get_prop_not_undefined [of d1 F] by (simp add: get_prop_new_record)
  have rec2: "get_prop (new_record id2 d2 t2) F = JStr v"
    using F v(2) get_prop_not_undefined [of d2 F] by (simp add: get_prop_new_record)
  have second: "r2 = Inr CommitError \<or> (\<exists>e. r2 = Inl e)" if ok: "r1 = Inr (CommitResult n)" for n
  proof -
    from c1 ok have p1: "performTransaction db (name cfg) (schemaPrimaryIndexes cfg)
        (spread_onto [(''id'', JStr id1)] d1) Set_op t1 = (Inr (CommitResult n), db1)"
      by (auto simp: create_def split: if_splits)
    have "projection_key (name cfg) (new_record id1 d1 t1) F = ?K"
      by (simp add: projection_key_def rec1)
    with F(1) have "?K \<in> projection_key (name cfg) (new_record id1 d1 t1) ` set (schemaPrimaryIndexes cfg)"
      by (metis imageI)
    with performTransaction_set_ok [OF p1]
    have taken: "kv_lookup db1 ?K \<noteq> None"
      by (simp add: new_record_def)
    show ?thesis
    proof (cases "parse (schemaValidationObject cfg) d2")
      case False
      with c2 show ?thesis by (auto simp: create_def)
    next
      case True
      with c2 have p2: "performTransaction db1 (name cfg) (schemaPrimaryIndexes cfg)
          (spread_onto [(''id'', JStr id2)] d2) Set_op t2 = (r2, db2)"
        by (simp add: create_def)
      from performTransaction_taken [OF p2 F(1) _ taken] rec2
      show ?thesis by (simp add: new_record_def)
    qed
  qed
  have first: "r1 = Inr (CommitResult (Suc (version db))) \<and> r2 = Inr CommitError"
    if valid: "parse (schemaValidationObject cfg) d1" "parse (schemaValidationObject cfg) d2"
      and all: "\<forall>G \<in> set (schemaPrimaryIndexes cfg).
             is_string (get_prop (new_record id1 d1 t1) G) \<and>
             is_string (get_prop (new_record id2 d2 t2) G) \<and>
             kv_lookup db (projection_key (name cfg) (new_record id1 d1 t1) G) = None"
  proof -
    from all have s1: "\<forall>index \<in> set (schemaPrimaryIndexes cfg).
        is_string (get_prop (updateTimestamps (spread_onto [(''id'', JStr id1)] d1) True t1) index)"
      and f1: "\<forall>index \<in> set (schemaPrimaryIndexes cfg).
        kv_lookup db (projection_key (name cfg)
          (updateTimestamps (spread_onto [(''id'', JStr id1)] d1) True t1) index) = None"
      and s2: "\<forall>index \<in> set (schemaPrimaryIndexes cfg).
        is_string (get_prop (updateTimestamps (spread_onto [(''id'', JStr id2)] d2) True t2) index)"
      by (simp_all add: new_record_def)
    from performTransaction_set_free [OF s1 f1] c1 valid(1)
    have r1: "r1 = Inr (CommitResult (Suc (version db)))"
      by (simp add: create_def)
    from second [OF r1] have "r2 = Inr CommitError \<or> (\<exists>e. r2 = Inl e)" .
    moreover have "\<not> (\<exists>e. r2 = Inl e)"
    proof -
      from mutation_keys_strings [OF s2] obtain jks where
        "mutation_keys (name cfg) (updateTimestamps (spread_onto [(''id'', JStr id2)] d2) True t2)
           (schemaPrimaryIndexes cfg) = Inr jks" ..
      with to_keys_check_key_strings [OF s2, of "name cfg"] c2 valid(2)
      show ?thesis
        by (auto simp: create_def performTransaction_unfold Let_def split: if_splits)
    qed
    ultimately show ?thesis using r1 by blast
  qed
  show ?thesis using second first by blast
qed

text \<open>The theorem on the empty store: the first \<^verbatim>\<open>create\<close> of the address commits,
  the second returns the failed commit result.\<close>

theorem create_equal_values_at_most_one_witness:
  "create users empty_db [(''email'', JStr ''a@x.com'')] U1 1000 = (Inr (CommitResult 1), users_db1) \<and>
   fst (create users users_db1 [(''email'', JStr ''a@x.com'')] U2 1001) = Inr CommitError"
proof -
  let ?d = "[(''email'', JStr ''a@x.com'')]"
  obtain r2 db2 where c2: "create users users_db1 ?d U2 1001 = (r2, db2)"
    by (cases "create users users_db1 ?d U2 1001")
  have c1: "create users empty_db ?d U1 1000 = (Inr (CommitResult 1), users_db1)"
    by code_simp
  have F: "''email'' \<in> set (schemaPrimaryIndexes users)" "''email'' \<noteq> ''createdAt''"
      "''email'' \<noteq> ''updatedAt''"
    by code_simp+
  have v: "get_prop ?d ''email'' = JStr ''a@x.com''"
    by code_simp
  have valid: "parse (schemaValidationObject users) ?d"
    by code_simp
  have free: "\<forall>G \<in> set (schemaPrimaryIndexes users).
             is_string (get_prop (new_record U1 ?d 1000) G) \<and>
             is_string (get_prop (new_record U2 ?d 1001) G) \<and>
             kv_lookup empty_db (projection_key (name users) (new_record U1 ?d 1000) G) = None"
    by code_simp
  from create_equal_values_at_most_one [OF F v v c1 c2] valid free
  have "r2 = Inr CommitError" by blast
  with c1 c2 show ?thesis by simp
qed

text \<open>The claim as stated fails when the value is already taken: on the store that holds the
  first user, two further \<^verbatim>\<open>create\<close> calls with the same address both return the
  failed commit result, so none of the two succeeds.\<close>

theorem create_equal_values_counterexample:
  "fst (create users users_db1 [(''email'', JStr ''a@x.com'')] U2 1001) = Inr CommitError \<and>
   fst (create users (snd (create users users_db1 [(''email'', JStr ''a@x.com'')] U2 1001))
          [(''email'', JStr ''a@x.com'')] U3 1002) = Inr CommitError"
  by code_simp

section \<open>Round trip\<close>

text \<open>
  Claim C4, as amended. Let \<open>data\<close> pass shape validation and carry no property
  named \<^verbatim>\<open>id\<close>, \<^verbatim>\<open>createdAt\<close> or \<^verbatim>\<open>updatedAt\<close> of its own, and let \<^verbatim>\<open>create(data)\<close>
  commit with the identifier \<open>ident\<close> (a UUID, as \<^verbatim>\<open>crypto.randomUUID()\<close> draws) at time
  \<open>now\<close>. Then \<^verbatim>\<open>findById(ident)\<close> returns \<open>data\<close> plus \<^verbatim>\<open>id = ident\<close>,
  \<^verbatim>\<open>createdAt = now\<close> and \<^verbatim>\<open>updatedAt = now\<close>: the two timestamps are equal.
\<close>

theorem create_then_findById:
  assumes "parse (schemaValidationObject cfg) data" and "uuid cfg ident"
    and "distinct (map fst data)"
    and "''id'' \<notin> fst ` set data" and "''createdAt'' \<notin> fst ` set data"
    and "''updatedAt'' \<notin> fst ` set data"
    and "create cfg db data ident now = (Inr (CommitResult n), db')"
  shows "fst (findById cfg db' (JStr ident)) =
           Inr (Some ((''id'', JStr ident) # data @
                      [(''createdAt'', JNum now), (''updatedAt'', JNum now)]))"
proof -
  let ?rec = "(''id'', JStr ident) # data @ [(''createdAt'', JNum now), (''updatedAt'', JNum now)]"
  have sp: "spread_onto [(''id'', JStr ident)] data = (''id'', JStr ident) # data"
    using spread_onto_fresh [of data "[(''id'', JStr ident)]"] assms(3,4) by simp
  have stamped: "updateTimestamps (spread_onto [(''id'', JStr ident)] data) True now = ?rec"
    using updateTimestamps_fresh [of "(''id'', JStr ident) # data" now] assms(5,6)
    by (simp add: sp)
  from assms(7) have p: "performTransaction db (name cfg) (schemaPrimaryIndexes cfg)
        (spread_onto [(''id'', JStr ident)] data) Set_op now = (Inr (CommitResult n), db')"
    by (auto simp: create_def split: if_splits)
  have idx: "''id'' \<in> set (schemaPrimaryIndexes cfg)"
    by (simp add: schemaPrimaryIndexes_def set_new_Set)
  have "get_prop ?rec ''id'' = JStr ident"
    using assms(4) get_prop_new_record [of ident data now "''id''"]
    by (simp add: new_record_def stamped)
  then have "projection_key (name cfg) ?rec ''id'' =
               [KStr (name cfg), KStr (getKeysWithIndexes (name cfg) ''id''), KStr ident]"
    by (simp add: projection_key_def)
  with idx have "[KStr (name cfg), KStr (getKeysWithIndexes (name cfg) ''id''), KStr ident]
                   \<in> projection_key (name cfg) ?rec ` set (schemaPrimaryIndexes cfg)"
    by (metis imageI)
  with performTransaction_set_ok [OF p]
  have "kv_lookup db' [KStr (name cfg), KStr (getKeysWithIndexes (name cfg) ''id''), KStr ident]
          = Some (?rec, n)"
    by (simp add: stamped)
  then show ?thesis
    using assms(2) by (simp add: findById_def findOne_id)
qed

text \<open>The theorem at the first user of the example.\<close>

theorem create_then_findById_witness:
  "create users empty_db [(''email'', JStr ''a@x.com'')] U1 1000 = (Inr (CommitResult 1), users_db1) \<and>
   fst (findById users users_db1 (JStr U1)) = Inr (Some user1)"
proof -
  let ?d = "[(''email'', JStr ''a@x.com'')]"
  have c1: "create users empty_db ?d U1 1000 = (Inr (CommitResult 1), users_db1)"
    by code_simp
  have valid: "parse (schemaValidationObject users) ?d" by code_simp
  have u: "uuid users U1" by code_simp
  have d: "distinct (map fst ?d)" by simp
  have n: "''id'' \<notin> fst ` set ?d" "''createdAt'' \<notin> fst ` set ?d" "''updatedAt'' \<notin> fst ` set ?d"
    by simp_all
  from create_then_findById [OF valid u d n c1] c1 show ?thesis
    by (simp add: user1_def)
qed

text \<open>
  The claim as stated, for every data that pass shape validation, fails in three ways, all
  on data the validation accepts (it ignores properties that are not declared). Data
  with an \<^verbatim>\<open>id\<close> of their own: \<^verbatim>\<open>{ id, ...data }\<close> keeps the data's \<^verbatim>\<open>id\<close>, the commit
  succeeds, and \<^verbatim>\<open>findById\<close> of the drawn identifier returns \<^verbatim>\<open>null\<close>. Data with a
  \<^verbatim>\<open>createdAt\<close> of their own: the record read back has the stamped time, not the data's
  value. Data whose address is already stored: the commit fails and \<^verbatim>\<open>findById\<close> of the
  drawn identifier returns \<^verbatim>\<open>null\<close>.
\<close>

theorem create_then_findById_counterexample:
  "parse (schemaValidationObject users) [(''email'', JStr ''a@x.com''), (''id'', JStr U2)] \<and>
   fst (create users empty_db [(''email'', JStr ''a@x.com''), (''id'', JStr U2)] U1 1000) =
     Inr (CommitResult 1) \<and>
   fst (findById users
          (snd (create users empty_db [(''email'', JStr ''a@x.com''), (''id'', JStr U2)] U1 1000))
          (JStr U1)) = Inr None \<and>
   parse (schemaValidationObject users) [(''email'', JStr ''a@x.com''), (''createdAt'', JNum 5)] \<and>
   fst (create users empty_db [(''email'', JStr ''a@x.com''), (''createdAt'', JNum 5)] U1 1000) =
     Inr (CommitResult 1) \<and>
   fst (findById users
          (snd (create users empty_db
                  [(''email'', JStr ''a@x.com''), (''createdAt'', JNum 5)] U1 1000))
          (JStr U1)) =
     Inr (Some [(''id'', JStr U1), (''email'', JStr ''a@x.com''),
                (''createdAt'', JNum 1000), (''updatedAt'', JNum 1000)]) \<and>
   parse (schemaValidationObject users) [(''email'', JStr ''a@x.com'')] \<and>
   fst (create users users_db1 [(''email'', JStr ''a@x.com'')] U2 1001) = Inr CommitError \<and>
   fst (findById users (snd (create users users_db1 [(''email'', JStr ''a@x.com'')] U2 1001))
          (JStr U2)) = Inr None"
  by code_simp

section \<open>Update of an unknown identifier\<close>

text \<open>
  Claim C8. Let \<open>s\<close> be an identifier (a string of the UUID form, which the query
  validation demands of an \<^verbatim>\<open>id\<close>) under which the store holds no record, and let
  \<open>data\<close> pass the partial validation. Then \<^verbatim>\<open>updateById(s, data)\<close> returns \<^verbatim>\<open>null\<close>;
  the store it leaves differs from the one it found by the logged read only: entries and
  versionstamp counter are unchanged.
\<close>

theorem updateById_unknown_id_no_mutation:
  assumes "uuid cfg s"
    and "parse (schemaValidationPartialObject cfg) data"
    and "kv_lookup db [KStr (name cfg), KStr (getKeysWithIndexes (name cfg) ''id''), KStr s] = None"
  shows "updateById cfg db (JStr s) data now =
           (Inr None, db\<lparr>calls := calls db @ [CallGetMany [id_key cfg s]]\<rparr>) \<and>
         entries (snd (updateById cfg db (JStr s) data now)) = entries db \<and>
         version (snd (updateById cfg db (JStr s) data now)) = version db"
  using assms by (simp add: updateById_def findOne_id)

text \<open>The theorem at the identifier \<open>U2\<close> on the store that holds the first user only.\<close>

theorem updateById_unknown_id_no_mutation_witness:
  "uuid users U2 \<and>
   updateById users users_db1 (JStr U2) [(''email'', JStr ''b@x.com'')] 2000 =
     (Inr None, users_db1\<lparr>calls := calls users_db1 @ [CallGetMany [id_key users U2]]\<rparr>) \<and>
   entries (snd (updateById users users_db1 (JStr U2) [(''email'', JStr ''b@x.com'')] 2000)) =
     entries users_db1"
proof -
  have valid: "parse (schemaValidationPartialObject users) [(''email'', JStr ''b@x.com'')]"
    by code_simp
  have absent: "kv_lookup users_db1
      [KStr (name users), KStr (getKeysWithIndexes (name users) ''id''), KStr U2] = None"
    by code_simp
  have u: "uuid users U2" by code_simp
  from updateById_unknown_id_no_mutation [OF u valid absent, of 2000] u show ?thesis
    by simp
qed

section \<open>Predicate scan\<close>

text \<open>
  Claim C6. For a non-empty query (that passes the query validation), \<^verbatim>\<open>find\<close> issues
  one prefix scan of the collection and returns, of the scanned records, exactly those
  that match at least one queried field, the first of each \<^verbatim>\<open>id\<close> only, in scan order.
\<close>

theorem find_returns_matching_once:
  assumes "query \<noteq> []" and "parse (schemaValidationPartialObjectWithId cfg) query"
  shows "find cfg db query =
           (Inr (Some (first_by_id [] (filter (matches query) (scan cfg db)))),
            db\<lparr>calls := calls db @ [CallList [JStr (name cfg)]]\<rparr>)"
proof -
  let ?es = "map (\<lambda>(k, v, _). (k, v))
               (filter (\<lambda>(k, _). has_prefix [KStr (name cfg)] k) (entries db))"
  have lp: "list_prefix db [JStr (name cfg)] =
              (Inr ?es, db\<lparr>calls := calls db @ [CallList [JStr (name cfg)]]\<rparr>)"
    by (simp add: list_prefix_def Let_def to_keypart_def)
  have vals: "map snd ?es = scan cfg db"
    by (simp add: scan_def split_def comp_def)
  have len: "length ?es = length (scan cfg db)"
    by (simp add: scan_def)
  from find_loop [of "[]" 0 query "[]" "scan cfg db"]
  have loop: "fst (foldl (find_entry query) ([], [])
                     (zip [0 ..< length (scan cfg db)] (scan cfg db))) =
              first_by_id [] (filter (matches query) (scan cfg db))"
    by simp
  have "find cfg db query =
          (case list_prefix db [JStr (name cfg)] of
             (Inl e, db') \<Rightarrow> (Inl e, db')
           | (Inr es, db') \<Rightarrow>
               (Inr (Some (fst (foldl (find_entry query) ([], [])
                                  (zip [0 ..< length es] (map snd es))))), db'))"
    using assms by (simp add: find_def)
  also have "\<dots> =
          (Inr (Some (fst (foldl (find_entry query) ([], [])
                             (zip [0 ..< length ?es] (map snd ?es))))),
           db\<lparr>calls := calls db @ [CallList [JStr (name cfg)]]\<rparr>)"
    by (simp only: lp prod.case sum.case)
  also have "\<dots> =
          (Inr (Some (first_by_id [] (filter (matches query) (scan cfg db)))),
           db\<lparr>calls := calls db @ [CallList [JStr (name cfg)]]\<rparr>)"
    by (simp only: vals len loop)
  finally show ?thesis .
qed

text \<open>The theorem on the store with two users. The scan meets each user twice (under its
  address key, then under its \<^verbatim>\<open>id\<close> key). The query names the address of the first
  and the \<^verbatim>\<open>id\<close> of the second: both are returned, each once, in scan order.\<close>

theorem find_returns_matching_once_witness:
  "scan users users_db2 = [user1, user2, user1, user2] \<and>
   fst (find users users_db2 [(''email'', JStr ''a@x.com''), (''id'', JStr U2)]) =
     Inr (Some [user1, user2])"
proof -
  let ?q = "[(''email'', JStr ''a@x.com''), (''id'', JStr U2)]"
  have q: "?q \<noteq> []" by simp
  have valid: "parse (schemaValidationPartialObjectWithId users) ?q" by code_simp
  have sc: "scan users users_db2 = [user1, user2, user1, user2]" by code_simp
  have res: "first_by_id [] (filter (matches ?q) [user1, user2, user1, user2]) = [user1, user2]"
    by code_simp
  from find_returns_matching_once [OF q valid, of users_db2] sc res show ?thesis
    by simp
qed

section \<open>The not-exists check on update and delete\<close>

text \<open>
  \<^verbatim>\<open>performTransaction\<close> stages the check \<^verbatim>\<open>versionstamp: null\<close> on every projection
  key whatever the operation. A record read back by its \<^verbatim>\<open>id\<close> occupies its own \<^verbatim>\<open>id\<close>
  key, so the transaction that \<^verbatim>\<open>deleteById\<close> or \<^verbatim>\<open>updateById\<close> builds from it fails
  that check: neither ever commits, and the entries stay as they were.
\<close>

lemma id_in_primary: "''id'' \<in> set (schemaPrimaryIndexes cfg)"
  by (simp add: schemaPrimaryIndexes_def set_new_Set)

lemma findOne_id_found:
  assumes "fst (findOne cfg db [(''id'', JStr s)]) = Inr (Some item)"
  shows "findOne cfg db [(''id'', JStr s)] =
           (Inr (Some item), db\<lparr>calls := calls db @ [CallGetMany [id_key cfg s]]\<rparr>) \<and>
         kv_lookup db [KStr (name cfg), KStr (getKeysWithIndexes (name cfg) ''id''), KStr s] \<noteq> None"
  using assms by (auto simp: findOne_id split: if_splits)

lemma deleteById_never_commits:
  assumes found: "fst (findOne cfg db [(''id'', JStr s)]) = Inr (Some item)"
    and own: "get_prop item ''id'' = JStr s"
  shows "(fst (deleteById cfg db (JStr s) now) = Inr (Some CommitError) \<or>
          (\<exists>e. fst (deleteById cfg db (JStr s) now) = Inl e)) \<and>
         entries (snd (deleteById cfg db (JStr s) now)) = entries db"
proof -
  let ?db1 = "db\<lparr>calls := calls db @ [CallGetMany [id_key cfg s]]\<rparr>"
  let ?K = "[KStr (name cfg), KStr (getKeysWithIndexes (name cfg) ''id''), KStr s]"
  from findOne_id_found [OF found]
  have f: "findOne cfg db [(''id'', JStr s)] = (Inr (Some item), ?db1)"
    and taken: "kv_lookup ?db1 ?K \<noteq> None"
    by (simp_all add: kv_lookup_def)
  obtain r db2 where p: "performTransaction ?db1 (name cfg) (schemaPrimaryIndexes cfg)
                           item Delete_op now = (r, db2)"
    by (cases "performTransaction ?db1 (name cfg) (schemaPrimaryIndexes cfg) item Delete_op now")
  have v: "get_prop (updateTimestamps item (Delete_op = Set_op) now) ''id'' = JStr s"
    by (simp add: get_prop_updateTimestamps own)
  from performTransaction_taken [OF p id_in_primary v taken]
  have r: "r = Inr CommitError \<or> (\<exists>e. r = Inl e)" .
  then have "\<forall>n. r \<noteq> Inr (CommitResult n)" by auto
  with performTransaction_entries [OF p] have e: "entries db2 = entries db" by simp
  have d: "deleteById cfg db (JStr s) now =
             (case r of Inl e \<Rightarrow> (Inl e, db2) | Inr c \<Rightarrow> (Inr (Some c), db2))"
    by (simp add: deleteById_def f p split: sum.splits)
  from r e show ?thesis
    by (auto simp: d)
qed

lemma map_of_filter_key:
  "map_of (filter (\<lambda>e. fst e = k) xs) k = map_of xs k"
  by (induction xs) auto

lemma get_prop_filter_key:
  "get_prop ob k = get_prop (filter (\<lambda>e. fst e = k) ob) k"
  using map_of_filter_key [of k "rev ob"] by (simp add: get_prop_def rev_filter)

lemma deepMerge_unfold:
  "deepMerge l r =
     filter (\<lambda>(k, _). k \<noteq> ''__proto__'')
       (map (\<lambda>(k, x). case map_of (rev r) k of None \<Rightarrow> (k, x)
                       | Some b \<Rightarrow> (k, mergeObjects x b)) l
        @ filter (\<lambda>(k, _). k \<notin> fst ` set l) r)"
  by (simp add: deepMerge_def)

lemma get_prop_deepMerge_untouched:
  assumes "k \<notin> fst ` set data" and "k \<noteq> ''__proto__''"
  shows "get_prop (deepMerge item data) k = get_prop item k"
proof -
  let ?f = "\<lambda>(k, x). case map_of (rev data) k of None \<Rightarrow> (k, x)
                       | Some b \<Rightarrow> (k, mergeObjects x b)"
  have none: "map_of (rev data) k = None"
    using assms(1) by (simp add: map_of_rev_None)
  have a: "filter (\<lambda>e. fst e = k) (map ?f xs) = filter (\<lambda>e. fst e = k) xs" for xs
    by (induction xs) (auto simp: none split: option.splits)
  have b: "filter (\<lambda>e. fst e = k) (filter (\<lambda>(k, _). k \<notin> fst ` set item) data) = []"
  proof -
    have "\<forall>e \<in> set data. fst e \<noteq> k"
      using assms(1) by (auto simp: image_iff)
    then show ?thesis
      by (simp add: filter_empty_conv)
  qed
  have c: "filter (\<lambda>e. fst e = k) (filter (\<lambda>(k, _). k \<noteq> ''__proto__'') xs) =
           filter (\<lambda>e. fst e = k) xs" for xs :: obj
    using assms(2) by (induction xs) auto
  have "filter (\<lambda>e. fst e = k) (deepMerge item data) = filter (\<lambda>e. fst e = k) item"
    unfolding deepMerge_unfold c filter_append a b by simp
  then show ?thesis
    using get_prop_filter_key [of "deepMerge item data" k] get_prop_filter_key [of item k]
    by simp
qed

lemma updateById_never_commits:
  assumes found: "fst (findOne cfg db [(''id'', JStr s)]) = Inr (Some item)"
    and own: "get_prop item ''id'' = JStr s"
    and keep: "''id'' \<notin> fst ` set data"
  shows "(fst (updateById cfg db (JStr s) data now) = Inr (Some CommitError) \<or>
          (\<exists>e. fst (updateById cfg db (JStr s) data now) = Inl e)) \<and>
         entries (snd (updateById cfg db (JStr s) data now)) = entries db"
proof (cases "parse (schemaValidationPartialObject cfg) data")
  case False
  then show ?thesis by (simp add: updateById_def)
next
  case True
  let ?db1 = "db\<lparr>calls := calls db @ [CallGetMany [id_key cfg s]]\<rparr>"
  let ?K = "[KStr (name cfg), KStr (getKeysWithIndexes (name cfg) ''id''), KStr s]"
  from findOne_id_found [OF found]
  have f: "findOne cfg db [(''id'', JStr s)] = (Inr (Some item), ?db1)"
    and taken: "kv_lookup ?db1 ?K \<noteq> None"
    by (simp_all add: kv_lookup_def)
  obtain r db2 where p: "performTransaction ?db1 (name cfg) (schemaPrimaryIndexes cfg)
                           (deepMerge item data) Set_op now = (r, db2)"
    by (cases "performTransaction ?db1 (name cfg) (schemaPrimaryIndexes cfg)
                 (deepMerge item data) Set_op now")
  have v: "get_prop (updateTimestamps (deepMerge item data) (Set_op = Set_op) now) ''id'' = JStr s"
    using keep by (simp add: get_prop_updateTimestamps get_prop_deepMerge_untouched own)
  from performTransaction_taken [OF p id_in_primary v taken]
  have r: "r = Inr CommitError \<or> (\<exists>e. r = Inl e)" .
  then have "\<forall>n. r \<noteq> Inr (CommitResult n)" by auto
  with performTransaction_entries [OF p] have e: "entries db2 = entries db" by simp
  have d: "updateById cfg db (JStr s) data now =
             (case r of Inl e \<Rightarrow> (Inl e, db2) | Inr c \<Rightarrow> (Inr (Some c), db2))"
    using True by (simp add: updateById_def f p split: sum.splits)
  from r e show ?thesis
    by (auto simp: d)
qed

text \<open>
  Claim C2, on the code. The first user is created, then \<^verbatim>\<open>deleteById\<close> is called with
  its identifier: the call returns the failed commit result, the entries are unchanged,
  and the lookups by \<^verbatim>\<open>id\<close> and by address still return the record. The claim expects
  a delete that succeeds and leaves both lookups absent.
\<close>

theorem deleteById_does_not_delete:
  "fst (findById users users_db1 (JStr U1)) = Inr (Some user1) \<and>
   fst (deleteById users users_db1 (JStr U1) 2000) = Inr (Some CommitError) \<and>
   entries (snd (deleteById users users_db1 (JStr U1) 2000)) = entries users_db1 \<and>
   fst (findById users (snd (deleteById users users_db1 (JStr U1) 2000)) (JStr U1)) =
     Inr (Some user1) \<and>
   fst (findOne users (snd (deleteById users users_db1 (JStr U1) 2000))
          [(''email'', JStr ''a@x.com'')]) = Inr (Some user1)"
  by code_simp

text \<open>
  Claim C3, on the code. The first user is created, then \<^verbatim>\<open>updateById\<close> is called with
  its identifier and a new address: the call returns the failed commit result, and
  \<^verbatim>\<open>findById\<close> still returns the record with the old address. The claim expects a
  successful commit and the new address.
\<close>

theorem updateById_does_not_update:
  "fst (findById users users_db1 (JStr U1)) = Inr (Some user1) \<and>
   fst (updateById users users_db1 (JStr U1) [(''email'', JStr ''b@x.com'')] 2000) =
     Inr (Some CommitError) \<and>
   fst (findById users (snd (updateById users users_db1 (JStr U1)
                               [(''email'', JStr ''b@x.com'')] 2000)) (JStr U1)) =
     Inr (Some user1) \<and>
   get_prop user1 ''email'' = JStr ''a@x.com''"
  by code_simp

section \<open>Timestamps on the update path\<close>

text \<open>\<^verbatim>\<open>performTransaction\<close> passes \<^verbatim>\<open>operation === "set"\<close> as \<^verbatim>\<open>isInsertion\<close>, and an
  update is a \<^verbatim>\<open>set\<close>: every record a set transaction writes has \<^verbatim>\<open>createdAt\<close> stamped
  with the current time.\<close>

lemma buildTransaction_set_createdAt:
  assumes "buildTransaction nm ix data Set_op now = Inr t" and "m \<in> set (mutations t)"
  shows "get_prop (snd (snd m)) ''createdAt'' = JNum now"
  using assms
  by (auto simp: buildTransaction_def Let_def get_prop_updateTimestamps split: sum.splits)

text \<open>
  Claim C5, on the code. The first user was created at time 1000. The transaction that
  \<^verbatim>\<open>updateById\<close> builds for it at time 2000 (the stored record merged with the new
  address) writes, under both projection keys, a record whose \<^verbatim>\<open>createdAt\<close> is 2000 like
  its \<^verbatim>\<open>updatedAt\<close>. The claim expects \<^verbatim>\<open>createdAt\<close> to stay 1000.
\<close>

theorem update_write_restamps_createdAt:
  "fst (findById users users_db1 (JStr U1)) = Inr (Some user1) \<and>
   get_prop user1 ''createdAt'' = JNum 1000 \<and>
   (case buildTransaction (name users) (schemaPrimaryIndexes users)
           (deepMerge user1 [(''email'', JStr ''b@x.com'')]) Set_op 2000 of
      Inl e \<Rightarrow> []
    | Inr t \<Rightarrow> map (\<lambda>(oper, k, d). (oper, get_prop d ''createdAt'', get_prop d ''updatedAt''))
                (mutations t)) =
     [(Set_op, JNum 2000, JNum 2000), (Set_op, JNum 2000, JNum 2000)]"
  by code_simp

end
